theory Spec2Isabelle
  imports Main "HOL-Library.Sublist"
begin

section \<open>Python values and exceptions\<close>

text \<open>
  The exceptions that the modelled part of \<^verbatim>\<open>client.py\<close> can raise.
  \<open>TypeError\<close> and \<open>ValueError\<close> are Python's built-in ones (a call that does not fit the
  callee's signature, a call of an object that is not callable, \<^verbatim>\<open>str.split\<close> with an
  empty separator, a response body that is not JSON); \<open>Icinga2ApiException\<close> and
  \<open>Icinga2ApiConfigFileException\<close> are the two exception classes of the module, each
  carrying its message; \<open>RequestException\<close> stands for whatever the \<^verbatim>\<open>requests\<close>
  library raises when no response arrives.
\<close>

datatype error =
    TypeError
  | ValueError
  | Icinga2ApiException string
  | Icinga2ApiConfigFileException string
  | RequestException

text \<open>
  Plain Python data: what a JSON payload is built from, what \<^verbatim>\<open>response.json()\<close>
  returns, and what a generator of this module can yield.  A \<^verbatim>\<open>dict\<close> is an association
  list in insertion order.  Floating point numbers are left out.
\<close>

datatype pyval =
    PNone
  | PBool bool
  | PInt int
  | PStr string
  | PList "pyval list"
  | PDict "(string \<times> pyval) list"

text \<open>Python's truth value of the values used in conditions here.\<close>

fun truthy :: "pyval \<Rightarrow> bool" where
  "truthy PNone = False"
| "truthy (PBool b) = b"
| "truthy (PInt i) = (i \<noteq> 0)"
| "truthy (PStr s) = (s \<noteq> [])"
| "truthy (PList xs) = (xs \<noteq> [])"
| "truthy (PDict kvs) = (kvs \<noteq> [])"

definition truthy_str :: "string option \<Rightarrow> bool" where
  "truthy_str s = (case s of None \<Rightarrow> False | Some t \<Rightarrow> t \<noteq> [])"

section \<open>\<^verbatim>\<open>str.split\<close> with a separator\<close>

text \<open>
  \<^verbatim>\<open>s.split(sep)\<close> scans \<open>s\<close> from the left; wherever \<open>sep\<close> starts it closes the current
  piece and resumes behind the separator, so occurrences never overlap.  The result has one
  piece more than separators found.  An empty separator raises \<open>ValueError\<close>.  The functions
  are polymorphic in the type of the characters: they hold for byte strings and for strings
  of code points alike.
\<close>

fun cons_first :: "'c \<Rightarrow> 'c list list \<Rightarrow> 'c list list" where
  "cons_first c [] = [[c]]"
| "cons_first c (p # ps) = (c # p) # ps"

function split_scan :: "'c list \<Rightarrow> 'c list \<Rightarrow> 'c list list" where
  "split_scan sep [] = [[]]"
| "split_scan sep (c # cs) =
     (if sep \<noteq> [] \<and> prefix sep (c # cs)
      then [] # split_scan sep (drop (length sep) (c # cs))
      else cons_first c (split_scan sep cs))"
  by pat_completeness auto
termination
  by (relation "measure (\<lambda>(sep, s). length s)") auto

definition str_split :: "'c list \<Rightarrow> 'c list \<Rightarrow> error + 'c list list" where
  "str_split sep s = (if sep = [] then Inl ValueError else Inr (split_scan sep s))"

text \<open>
  The number of occurrences of the delimiter in a text, counted as Python's
  \<^verbatim>\<open>str.count\<close> counts them: from the left, without overlap.
\<close>

function occurrences :: "'c list \<Rightarrow> 'c list \<Rightarrow> nat" where
  "occurrences sep [] = 0"
| "occurrences sep (c # cs) =
     (if sep \<noteq> [] \<and> prefix sep (c # cs)
      then Suc (occurrences sep (drop (length sep) (c # cs)))
      else occurrences sep cs)"
  by pat_completeness auto
termination
  by (relation "measure (\<lambda>(sep, s). length s)") auto

text \<open>Joining records again, the delimiter put back behind each one.\<close>

definition reinsert :: "'c list \<Rightarrow> 'c list list \<Rightarrow> 'c list" where
  "reinsert sep recs = concat (map (\<lambda>r. r @ sep) recs)"

section \<open>The frame reassembler: \<^verbatim>\<open>Base.fetech_from_stream\<close>\<close>

text \<open>
  \<^verbatim>\<open>Client\<close> holds the connection settings; every API class (\<^verbatim>\<open>Objects\<close>,
  \<^verbatim>\<open>Actions\<close>, \<^verbatim>\<open>Events\<close>, \<^verbatim>\<open>Status\<close>) derives from \<^verbatim>\<open>Base\<close>, whose objects hold
  the client as \<open>manager\<close> and the carry-over buffer \<open>stream_cache\<close>.
\<close>

record client =
  url :: string
  username :: "string option"
  password :: "string option"
  timeout :: "string option"
  certificate :: "string option"
  key :: "string option"
  ca_certificate :: "string option"
  version :: string

record 'c base =
  manager :: client
  stream_cache :: "'c list"

definition Base_init :: "client \<Rightarrow> 'c base" where
  "Base_init m = \<lparr>manager = m, stream_cache = []\<rparr>"

text \<open>
  A generator is modelled by its trace: the values it yields, in the order a consumer that
  keeps asking receives them, and how it ends, \<open>None\<close> for a normal end
  (\<^verbatim>\<open>StopIteration\<close>) and \<open>Some e\<close> for the exception \<open>e\<close>.  The chunk source is the finite
  list of the chunks it delivers before it signals the end of the stream.
\<close>

type_synonym 'y trace = "'y list \<times> error option"

text \<open>
  One pass through the body of the \<^verbatim>\<open>for\<close> loop: the chunk is appended to
  \<open>stream_cache\<close> (the assignment happens before the split, so it stays when the split
  raises), the buffer is split, and with two pieces or more the last piece is kept and the
  others are yielded as one list.  The result is what the pass yields, if anything, or the
  exception, together with the object as the pass leaves it.
\<close>

definition feed :: "'c list \<Rightarrow> 'c base \<Rightarrow> 'c list \<Rightarrow> (error + 'c list list option) \<times> 'c base" where
  "feed split_str self chunk =
     (let self1 = self\<lparr>stream_cache := stream_cache self @ chunk\<rparr> in
      case str_split split_str (stream_cache self1) of
        Inl e \<Rightarrow> (Inl e, self1)
      | Inr lines \<Rightarrow>
          if length lines \<ge> 2
          then (Inr (Some (butlast lines)), self1\<lparr>stream_cache := last lines\<rparr>)
          else (Inr None, self1))"

fun fetech_loop :: "'c list \<Rightarrow> 'c base \<Rightarrow> 'c list list \<Rightarrow> 'c list list trace \<times> 'c base" where
  "fetech_loop split_str self [] = (([], None), self)"
| "fetech_loop split_str self (chunk # rest) =
     (case feed split_str self chunk of
        (Inl e, self') \<Rightarrow> (([], Some e), self')
      | (Inr None, self') \<Rightarrow> fetech_loop split_str self' rest
      | (Inr (Some recs), self') \<Rightarrow>
          (case fetech_loop split_str self' rest of
             ((ys, e), self'') \<Rightarrow> ((recs # ys, e), self'')))"

text \<open>
  The argument \<open>stream\<close> is called with the chunk size and must return the chunks.  What
  reaches the parameter may be any Python object: a callable, or plain data, whose call
  raises \<open>TypeError\<close> when the generator is first resumed.
\<close>

datatype 'c stream_obj =
    Callable "nat \<Rightarrow> 'c list list"
  | Data pyval

definition fetech_from_stream ::
    "'c base \<Rightarrow> 'c stream_obj \<Rightarrow> 'c list \<Rightarrow> nat \<Rightarrow> 'c list list trace \<times> 'c base" where
  "fetech_from_stream self stream split_str chunk_size =
     (case stream of
        Data v \<Rightarrow> (([], Some TypeError), self)
      | Callable f \<Rightarrow> fetech_loop split_str self (f chunk_size))"

definition default_split_str :: string where
  "default_split_str = [CHR 0x0A]"

definition default_chunk_size :: nat where
  "default_chunk_size = 1024"

section \<open>One request: \<^verbatim>\<open>Base._create_session\<close> and \<^verbatim>\<open>Base._request\<close>\<close>

datatype cert = CertAndKey string string | CertFile string

datatype verify = VerifyCA string | VerifyOff

record session =
  cert :: "cert option"
  auth :: "(string \<times> string) option"
  headers :: "(string \<times> string) list"

record request_args =
  req_url :: string
  req_json :: "pyval option"
  req_verify :: verify

record response =
  status_code :: int
  resp_url :: string
  resp_text :: string
  resp_json :: "pyval option"

text \<open>
  The world outside the module: \<^verbatim>\<open>urljoin\<close> of the standard library, the answer of the
  server to the \<open>n\<close>-th POST of the run (\<open>None\<close> when \<^verbatim>\<open>requests\<close> raises instead of
  returning a response), and the log of the POSTs made so far.  In a response, \<open>resp_json\<close>
  is what \<^verbatim>\<open>response.json()\<close> returns, \<open>None\<close> when the body is not JSON and the call
  raises a \<open>ValueError\<close>.  Logging and the \<^verbatim>\<open>pprint\<close> calls are not modelled.
\<close>

record world =
  urljoin :: "string \<Rightarrow> string \<Rightarrow> string"
  respond :: "nat \<Rightarrow> session \<Rightarrow> request_args \<Rightarrow> response option"
  posted :: "request_args list"

definition upper_char :: "char \<Rightarrow> char" where
  "upper_char c =
     (let n = (of_char c :: nat) in if 97 \<le> n \<and> n \<le> 122 then char_of (n - 32) else c)"

definition upper :: "string \<Rightarrow> string" where
  "upper s = map upper_char s"

definition create_session :: "client \<Rightarrow> string \<Rightarrow> session" where
  "create_session m method =
     \<lparr>cert =
        (case (certificate m, key m) of
           (Some c, Some k) \<Rightarrow>
             if c \<noteq> [] \<and> k \<noteq> [] then Some (CertAndKey c k)
             else if c \<noteq> [] then Some (CertFile c) else None
         | (Some c, None) \<Rightarrow> if c \<noteq> [] then Some (CertFile c) else None
         | (None, _) \<Rightarrow> None),
      auth =
        (if truthy_str (certificate m) then None
         else case (username m, password m) of
           (Some u, Some p) \<Rightarrow> if u \<noteq> [] \<and> p \<noteq> [] then Some (u, p) else None
         | _ \<Rightarrow> None),
      headers =
        [(''User-Agent'', ''Python-icinga2api/'' @ version m),
         (''X-HTTP-Method-Override'', upper method),
         (''Accept'', ''application/json'')]\<rparr>"

definition session_post :: "world \<Rightarrow> session \<Rightarrow> request_args \<Rightarrow> (error + response) \<times> world" where
  "session_post w s args =
     ((case respond w (length (posted w)) s args of
         None \<Rightarrow> Inl RequestException
       | Some r \<Rightarrow> Inr r),
      w\<lparr>posted := posted w @ [args]\<rparr>)"

fun digits :: "nat \<Rightarrow> string" where
  "digits n =
     (if n < 10 then [''0123456789'' ! n]
      else digits (n div 10) @ [''0123456789'' ! (n mod 10)])"

definition str_int :: "int \<Rightarrow> string" where
  "str_int i = (if i < 0 then CHR ''-'' # digits (nat (- i)) else digits (nat i))"

definition failure_message :: "response \<Rightarrow> string" where
  "failure_message r =
     ''Request \"'' @ resp_url r @ ''\" failed with status '' @ str_int (status_code r)
       @ '': '' @ resp_text r"

definition build_request_args :: "client \<Rightarrow> world \<Rightarrow> string \<Rightarrow> pyval \<Rightarrow> request_args" where
  "build_request_args m w url_path payload =
     \<lparr>req_url = urljoin w (url m) url_path,
      req_json = (if truthy payload then Some payload else None),
      req_verify =
        (case ca_certificate m of
           Some ca \<Rightarrow> if ca \<noteq> [] then VerifyCA ca else VerifyOff
         | None \<Rightarrow> VerifyOff)\<rparr>"

definition request :: "'c base \<Rightarrow> world \<Rightarrow> string \<Rightarrow> string \<Rightarrow> pyval \<Rightarrow> (error + pyval) \<times> world" where
  "request self w method url_path payload =
     (let session = create_session (manager self) method;
          args = build_request_args (manager self) w url_path payload
      in case session_post w session args of
           (Inl e, w') \<Rightarrow> (Inl e, w')
         | (Inr response, w') \<Rightarrow>
             if \<not> (200 \<le> status_code response \<and> status_code response \<le> 299)
             then (Inl (Icinga2ApiException (failure_message response)), w')
             else (case resp_json response of
                     None \<Rightarrow> (Inl ValueError, w')
                   | Some v \<Rightarrow> (Inr v, w')))"

text \<open>
  How Python binds the arguments of a call to the parameters of a \<^verbatim>\<open>def\<close> without
  \<^verbatim>\<open>*args\<close> and \<^verbatim>\<open>**kwargs\<close>: no more positional arguments than parameters, every
  keyword names a parameter that no positional argument has filled, and every parameter
  without a default gets a value.  A call that does not bind raises \<open>TypeError\<close> before the
  body of the callee starts.  \<open>request_params\<close> is the signature
  \<^verbatim>\<open>_request(self, method, url_path, payload=None)\<close> behind \<open>self\<close>.
\<close>

definition binds :: "string list \<Rightarrow> nat \<Rightarrow> nat \<Rightarrow> string list \<Rightarrow> bool" where
  "binds params required npos kws =
     (npos \<le> length params
      \<and> list_all (\<lambda>k. k \<in> set params \<and> k \<notin> set (take npos params)) kws
      \<and> list_all (\<lambda>p. p \<in> set (take npos params) \<or> p \<in> set kws) (take required params))"

definition request_params :: "string list" where
  "request_params = [''method'', ''url_path'', ''payload'']"

definition request_required :: nat where
  "request_required = 2"

section \<open>The event stream: \<^verbatim>\<open>Events.subscribe\<close>\<close>

definition Events_base_url_path :: string where
  "Events_base_url_path = ''/v1/events''"

definition subscribe_payload :: "string list \<Rightarrow> string \<Rightarrow> string option \<Rightarrow> pyval" where
  "subscribe_payload types queue filters =
     PDict ([(''types'', PList (map PStr types)), (''queue'', PStr queue)]
            @ (case filters of
                 None \<Rightarrow> []
               | Some f \<Rightarrow> if f \<noteq> [] then [(''filters'', PStr f)] else []))"

text \<open>
  The two nested \<^verbatim>\<open>for\<close> loops at the end of \<^verbatim>\<open>subscribe\<close>: every list that
  \<^verbatim>\<open>fetech_from_stream\<close> yields is passed on element by element.
\<close>

definition subscribe_loop :: "char base \<Rightarrow> char stream_obj \<Rightarrow> pyval trace \<times> char base" where
  "subscribe_loop self stream =
     (case fetech_from_stream self stream default_split_str default_chunk_size of
        ((yields, e), self') \<Rightarrow> ((map PStr (concat yields), e), self'))"

text \<open>
  \<^verbatim>\<open>subscribe\<close> is a generator function: the call itself runs nothing, the body starts
  when the first element is asked for.  The trace is what iterating gives, with the object
  and the world as the iteration leaves them.  The call of \<^verbatim>\<open>_request\<close> passes three
  positional arguments and the keyword \<^verbatim>\<open>stream\<close>.
\<close>

definition subscribe ::
    "char base \<Rightarrow> world \<Rightarrow> string list \<Rightarrow> string \<Rightarrow> string option
      \<Rightarrow> pyval trace \<times> char base \<times> world" where
  "subscribe self w types queue filters =
     (let payload = subscribe_payload types queue filters in
      if \<not> binds request_params request_required 3 [''stream'']
      then (([], Some TypeError), self, w)
      else case request self w ''POST'' Events_base_url_path payload of
             (Inl e, w') \<Rightarrow> (([], Some e), self, w')
           | (Inr stream, w') \<Rightarrow>
               (case subscribe_loop self (Data stream) of
                  (t, self') \<Rightarrow> (t, self', w')))"

section \<open>Example inputs\<close>

text \<open>
  A client, and a server that answers every POST with the given status code and an empty
  JSON object.  They are the concrete inputs of the examples below.
\<close>

definition example_client :: client where
  "example_client =
     \<lparr>url = ''https://localhost:5665'', username = Some ''root'', password = Some ''icinga'',
      timeout = None, certificate = None, key = None, ca_certificate = None,
      version = ''0.3''\<rparr>"

definition example_world :: "int \<Rightarrow> world" where
  "example_world code =
     \<lparr>urljoin = (\<lambda>b p. b @ p),
      respond = (\<lambda>n s a. Some \<lparr>status_code = code, resp_url = req_url a,
                               resp_text = ''{}'', resp_json = Some (PDict [])\<rparr>),
      posted = []\<rparr>"


section \<open>Properties of the split\<close>


lemma cons_first_nonempty: "cons_first c ps \<noteq> []"
  by (cases ps) auto

lemma split_scan_nonempty: "split_scan sep s \<noteq> []"
  by (induction sep s rule: split_scan.induct) (auto simp: cons_first_nonempty)

lemma length_cons_first: "ps \<noteq> [] \<Longrightarrow> length (cons_first c ps) = length ps"
  by (cases ps) auto

lemma length_split_scan: "length (split_scan sep s) = Suc (occurrences sep s)"
  by (induction sep s rule: split_scan.induct)
     (auto simp: length_cons_first split_scan_nonempty)

lemma reinsert_cons_first:
  "ps \<noteq> [] \<Longrightarrow> reinsert sep (butlast (cons_first c ps)) @ last (cons_first c ps)
     = c # reinsert sep (butlast ps) @ last ps"
  by (cases ps) (auto simp: reinsert_def)

lemma split_scan_match: "sep \<noteq> [] \<Longrightarrow> split_scan sep (sep @ r) = [] # split_scan sep r"
  by (cases sep) auto

lemma split_scan_nomatch:
  "\<not> prefix sep (c # cs) \<Longrightarrow> split_scan sep (c # cs) = cons_first c (split_scan sep cs)"
  by simp

lemma scan_induct [consumes 1, case_names Nil Match Step]:
  assumes "sep \<noteq> []"
    and "P []"
    and "\<And>r. P r \<Longrightarrow> P (sep @ r)"
    and "\<And>c cs. \<not> prefix sep (c # cs) \<Longrightarrow> P cs \<Longrightarrow> P (c # cs)"
  shows "P s"
proof (induction s rule: length_induct)
  case (1 s)
  show ?case
  proof (cases s)
    case Nil
    with assms(2) show ?thesis by simp
  next
    case (Cons c cs)
    show ?thesis
    proof (cases "prefix sep (c # cs)")
      case True
      then obtain r where r: "c # cs = sep @ r" by (auto simp: prefix_def)
      with assms(1) Cons have "length r < length s" by (cases sep) auto
      with 1 have "P r" by simp
      with r Cons assms(3) show ?thesis by simp
    next
      case False
      from 1 Cons have "P cs" by simp
      with False Cons assms(4) show ?thesis by simp
    qed
  qed
qed

lemma split_scan_join: 
  assumes "sep \<noteq> []"
  shows "reinsert sep (butlast (split_scan sep s)) @ last (split_scan sep s) = s"
  using assms
proof (induction s rule: scan_induct)
  case Nil
  show ?case by (simp add: reinsert_def)
next
  case (Match r)
  then show ?case
    by (simp add: split_scan_match assms split_scan_nonempty reinsert_def)
next
  case (Step c cs)
  then show ?case
    by (simp add: split_scan_nomatch reinsert_cons_first split_scan_nonempty del: split_scan.simps) 
qed

lemma split_scan_single: 
  assumes "sep \<noteq> []" "split_scan sep s = [p]" shows "p = s"
  using split_scan_join [OF assms(1), of s] assms(2) by (simp add: reinsert_def)

lemma split_scan_short: 
  assumes "sep \<noteq> []" "length (split_scan sep s) < 2" shows "split_scan sep s = [s]"
proof -
  from assms(2) split_scan_nonempty [of sep s] obtain p where p: "split_scan sep s = [p]"
    by (cases "split_scan sep s") (auto simp: Suc_less_eq2 less_Suc_eq)
  with split_scan_single [OF assms(1) p] show ?thesis by simp
qed

lemma split_scan_no_sublist: "\<not> sublist sep s \<Longrightarrow> split_scan sep s = [s]"
  by (induction s) (auto simp: sublist_Cons_right)

lemma hd_split_scan_prefix:
  assumes "sep \<noteq> []" shows "prefix (hd (split_scan sep s)) s"
  using assms
proof (induction s rule: scan_induct)
  case Nil
  show ?case by simp
next
  case (Match r)
  then show ?case by (simp add: split_scan_match assms)
next
  case (Step c cs)
  then show ?case
    by (cases "split_scan sep cs") (simp_all add: split_scan_nonempty)
qed

lemma split_scan_pieces:
  assumes "sep \<noteq> []" shows "p \<in> set (split_scan sep s) \<Longrightarrow> \<not> sublist sep p"
  using assms
proof (induction s arbitrary: p rule: scan_induct)
  case Nil
  with assms show ?case by simp
next
  case (Match r)
  with assms show ?case by (auto simp: split_scan_match)
next
  case (Step c cs)
  obtain q qs where q: "split_scan sep cs = q # qs"
    using split_scan_nonempty [of sep cs] by (cases "split_scan sep cs") auto
  from hd_split_scan_prefix [OF assms, of cs] q have "prefix q cs" by simp
  with Step.hyps have "\<not> prefix sep (c # q)"
    by (metis Cons_prefix_Cons prefix_order.trans)
  moreover from Step.IH [of q] q have "\<not> sublist sep q" by simp
  ultimately have "\<not> sublist sep (c # q)" by (simp add: sublist_Cons_right)
  moreover from Step.IH q have "\<forall>p\<in>set qs. \<not> sublist sep p" by simp
  ultimately show ?case using Step.prems Step.hyps q by auto
qed

lemma split_scan_append:
  assumes "sep \<noteq> []"
  shows "split_scan sep (s @ t)
     = butlast (split_scan sep s) @ split_scan sep (last (split_scan sep s) @ t)"
  using assms
proof (induction s rule: scan_induct)
  case Nil
  show ?case by simp
next
  case (Match r)
  then show ?case
    by (simp add: split_scan_match assms split_scan_nonempty)
next
  case (Step c cs)
  show ?case
  proof (cases "prefix sep (c # cs @ t)")
    case True
    with Step.hyps have "length (c # cs) < length sep"
      by (metis append_Cons not_le_imp_less prefix_length_prefix prefixI)
    then have "\<not> sublist sep (c # cs)"
      using sublist_length_le by fastforce
    then have "split_scan sep (c # cs) = [c # cs]" by (rule split_scan_no_sublist)
    then show ?thesis by simp
  next
    case False
    obtain q qs where q: "split_scan sep cs = q # qs"
      using split_scan_nonempty [of sep cs] by (cases "split_scan sep cs") auto
    show ?thesis
    proof (cases qs)
      case Nil
      with q split_scan_single [OF assms, of cs q] have "split_scan sep cs = [cs]" by simp
      with Step.hyps show ?thesis by simp
    next
      case (Cons q' qs')
      with q Step.IH False Step.hyps show ?thesis by simp
    qed
  qed
qed

lemma feed_emits:
  assumes "sep \<noteq> []" "2 \<le> length (split_scan sep (stream_cache self @ chunk))"
  shows "feed sep self chunk =
     (Inr (Some (butlast (split_scan sep (stream_cache self @ chunk)))),
      self\<lparr>stream_cache := last (split_scan sep (stream_cache self @ chunk))\<rparr>)"
  using assms by (simp add: feed_def str_split_def)

lemma feed_keeps:
  assumes "sep \<noteq> []" "length (split_scan sep (stream_cache self @ chunk)) < 2"
  shows "feed sep self chunk = (Inr None, self\<lparr>stream_cache := stream_cache self @ chunk\<rparr>)"
  using assms by (simp add: feed_def str_split_def)

lemma last_split_scan_clean:
  assumes "sep \<noteq> []" shows "\<not> sublist sep (last (split_scan sep s))"
  using split_scan_pieces [OF assms, of "last (split_scan sep s)" s] split_scan_nonempty [of sep s]
  by simp

lemma fetech_loop_split:
  assumes "sep \<noteq> []"
  shows "\<not> sublist sep (stream_cache self) \<Longrightarrow>
      snd (fst (fetech_loop sep self chunks)) = None
    \<and> snd (fetech_loop sep self chunks)
        = self\<lparr>stream_cache := last (split_scan sep (stream_cache self @ concat chunks))\<rparr>
    \<and> concat (fst (fst (fetech_loop sep self chunks)))
        = butlast (split_scan sep (stream_cache self @ concat chunks))"
proof (induction chunks arbitrary: self)
  case Nil
  then show ?case by (simp add: split_scan_no_sublist)
next
  case (Cons chunk rest)
  let ?buf = "stream_cache self @ chunk"
  let ?lines = "split_scan sep ?buf"
  show ?case
  proof (cases "2 \<le> length ?lines")
    case True
    let ?self' = "self\<lparr>stream_cache := last ?lines\<rparr>"
    have app: "split_scan sep (?buf @ concat rest)
        = butlast ?lines @ split_scan sep (last ?lines @ concat rest)"
      by (rule split_scan_append [OF assms])
    have "\<not> sublist sep (stream_cache ?self')"
      by (simp add: last_split_scan_clean [OF assms])
    from Cons.IH [OF this] feed_emits [OF assms True] app show ?thesis
      by (simp add: split_beta split_scan_nonempty butlast_append)
  next
    case False
    then have short: "length ?lines < 2" by simp
    let ?self' = "self\<lparr>stream_cache := ?buf\<rparr>"
    from split_scan_short [OF assms short] last_split_scan_clean [OF assms, of ?buf]
    have "\<not> sublist sep (stream_cache ?self')" by simp
    from Cons.IH [OF this] feed_keeps [OF assms short] show ?thesis
      by simp
  qed
qed

section \<open>The reassembler on a whole stream\<close>

lemma fetech_from_stream_Callable:
  "fetech_from_stream self (Callable f) split_str n = fetech_loop split_str self (f n)"
  by (simp add: fetech_from_stream_def)

lemma Base_init_clean: "split_str \<noteq> [] \<Longrightarrow> \<not> sublist split_str (stream_cache (Base_init m))"
  by (simp add: Base_init_def)

lemma occurrences_single: "occurrences [d] s = count_list s d"
  by (induction s) auto

text \<open>
  Claim C3 (no data loss).  A freshly constructed object is fed the chunks of any chunk
  source, with any non-empty delimiter.  The generator ends normally, the number of records
  it yields in total is the number of occurrences of the delimiter in the concatenation of
  the chunks, and the records, each followed by the delimiter again, followed by what is
  left in the buffer, are the concatenation of the chunks; the buffer left holds no
  delimiter, so the records with their delimiters are the text up to and including the last
  delimiter.  Occurrences are counted from the left without overlap; for a delimiter of one
  character \<open>occurrences_single\<close> says that this is the number of positions holding it.
\<close>

theorem reassembly_no_data_loss:
  assumes "split_str \<noteq> []"
  shows "snd (fst (fetech_from_stream (Base_init m) (Callable f) split_str chunk_size)) = None
    \<and> length (concat (fst (fst (fetech_from_stream (Base_init m) (Callable f) split_str chunk_size))))
        = occurrences split_str (concat (f chunk_size))
    \<and> reinsert split_str
          (concat (fst (fst (fetech_from_stream (Base_init m) (Callable f) split_str chunk_size))))
        @ stream_cache (snd (fetech_from_stream (Base_init m) (Callable f) split_str chunk_size))
        = concat (f chunk_size)
    \<and> \<not> sublist split_str
          (stream_cache (snd (fetech_from_stream (Base_init m) (Callable f) split_str chunk_size)))"
proof -
  let ?data = "concat (f chunk_size)"
  let ?run = "fetech_loop split_str (Base_init m) (f chunk_size)"
  have cache: "stream_cache (Base_init m :: 'a base) = []" by (simp add: Base_init_def)
  from fetech_loop_split [OF assms Base_init_clean [OF assms], of m "f chunk_size"] cache
  have e: "snd (fst ?run) = None"
    and s: "stream_cache (snd ?run) = last (split_scan split_str ?data)"
    and r: "concat (fst (fst ?run)) = butlast (split_scan split_str ?data)"
    by simp_all
  have "length (concat (fst (fst ?run))) = occurrences split_str ?data"
    by (simp add: r length_split_scan)
  moreover have "reinsert split_str (concat (fst (fst ?run))) @ stream_cache (snd ?run) = ?data"
    by (simp add: r s split_scan_join [OF assms])
  moreover have "\<not> sublist split_str (stream_cache (snd ?run))"
    by (simp add: s last_split_scan_clean [OF assms])
  ultimately show ?thesis using e by (simp add: fetech_from_stream_Callable)
qed

theorem reassembly_no_data_loss_witness:
  "default_split_str \<noteq> []
   \<and> concat (fst (fst (fetech_from_stream (Base_init example_client)
         (Callable (\<lambda>n. [''a\<newline>b'', ''c\<newline>'', ''d''])) default_split_str default_chunk_size)))
       = [''a'', ''bc'']
   \<and> occurrences default_split_str (concat [''a\<newline>b'', ''c\<newline>'', ''d'']) = 2
   \<and> reinsert default_split_str [''a'', ''bc''] @ ''d'' = concat [''a\<newline>b'', ''c\<newline>'', ''d'']
   \<and> \<not> sublist default_split_str ''d''"
proof -
  have h: "default_split_str \<noteq> []" by (simp add: default_split_str_def)
  have run: "fetech_from_stream (Base_init example_client)
         (Callable (\<lambda>n. [''a\<newline>b'', ''c\<newline>'', ''d''])) default_split_str default_chunk_size
        = (([[''a''], [''bc'']], None), \<lparr>manager = example_client, stream_cache = ''d''\<rparr>)"
    by (simp add: fetech_from_stream_def default_split_str_def feed_def str_split_def Base_init_def)
  from reassembly_no_data_loss [OF h, of example_client
      "\<lambda>n. [''a\<newline>b'', ''c\<newline>'', ''d'']" default_chunk_size] h run
  show ?thesis by simp
qed

section \<open>One feed step\<close>

text \<open>
  Claim C4.  Whatever the buffer holds: when the split of buffer plus chunk gives \<open>N \<ge> 2\<close>
  pieces, the feed step yields exactly the first \<open>N - 1\<close> of them, in their order, and the
  last one becomes the buffer.  The records are stripped of the delimiter (none contains
  it), and putting it back behind each record gives the buffer plus chunk again.
\<close>

theorem feed_emits_all_but_last:
  assumes "str_split split_str (stream_cache self @ chunk) = Inr lines"
    and "2 \<le> length lines"
  shows "feed split_str self chunk
      = (Inr (Some (take (length lines - 1) lines)),
         self\<lparr>stream_cache := lines ! (length lines - 1)\<rparr>)
    \<and> (\<forall>r\<in>set (take (length lines - 1) lines). \<not> sublist split_str r)
    \<and> reinsert split_str (take (length lines - 1) lines) @ lines ! (length lines - 1)
        = stream_cache self @ chunk"
proof -
  from assms(1) have sep: "split_str \<noteq> []"
    and lines: "lines = split_scan split_str (stream_cache self @ chunk)"
    by (auto simp: str_split_def split: if_splits)
  from assms(2) have ne: "lines \<noteq> []" by auto
  have bl: "butlast lines = take (length lines - 1) lines" by (rule butlast_conv_take)
  have la: "last lines = lines ! (length lines - 1)" using ne by (rule last_conv_nth)
  from feed_emits [OF sep, of self chunk] assms(2) lines bl la
  have "feed split_str self chunk
      = (Inr (Some (take (length lines - 1) lines)),
         self\<lparr>stream_cache := lines ! (length lines - 1)\<rparr>)"
    by simp
  moreover have "\<forall>r\<in>set (take (length lines - 1) lines). \<not> sublist split_str r"
    using split_scan_pieces [OF sep] lines by (auto dest: in_set_takeD)
  moreover from split_scan_join [OF sep, of "stream_cache self @ chunk"] lines bl la
  have "reinsert split_str (take (length lines - 1) lines) @ lines ! (length lines - 1)
        = stream_cache self @ chunk"
    by simp
  ultimately show ?thesis by simp
qed

theorem feed_emits_all_but_last_witness:
  "str_split default_split_str
       (stream_cache \<lparr>manager = example_client, stream_cache = ''x''\<rparr> @ ''a\<newline>b\<newline>c'')
     = Inr [''xa'', ''b'', ''c'']
   \<and> 2 \<le> length [''xa'', ''b'', ''c'']
   \<and> feed default_split_str \<lparr>manager = example_client, stream_cache = ''x''\<rparr> ''a\<newline>b\<newline>c''
     = (Inr (Some [''xa'', ''b'']), \<lparr>manager = example_client, stream_cache = ''c''\<rparr>)"
proof -
  have h1: "str_split default_split_str
       (stream_cache \<lparr>manager = example_client, stream_cache = ''x''\<rparr> @ ''a\<newline>b\<newline>c'')
     = Inr [''xa'', ''b'', ''c'']"
    by (simp add: str_split_def default_split_str_def)
  have h2: "2 \<le> length [''xa'', ''b'', ''c'']" by simp
  from feed_emits_all_but_last [OF h1 h2] h1 h2 show ?thesis by simp
qed

lemma occurrences_zero_iff:
  assumes "sep \<noteq> []" shows "occurrences sep s = 0 \<longleftrightarrow> \<not> sublist sep s"
proof
  assume "occurrences sep s = 0"
  then have "length (split_scan sep s) < 2" by (simp add: length_split_scan)
  from split_scan_short [OF assms this] last_split_scan_clean [OF assms, of s]
  show "\<not> sublist sep s" by simp
next
  assume "\<not> sublist sep s"
  then have "split_scan sep s = [s]" by (rule split_scan_no_sublist)
  then have "length (split_scan sep s) = 1" by simp
  then show "occurrences sep s = 0" by (simp add: length_split_scan)
qed

lemma sublist_single: "sublist [d] s \<longleftrightarrow> d \<in> set s"
  by (induction s) (auto simp: sublist_Cons_right)

text \<open>
  Claim C5, as the code has it.  The guard of the loop is \<^verbatim>\<open>len(lines) >= 2\<close>, and one
  occurrence of the delimiter already gives two pieces.  So a buffer plus chunk without any
  occurrence yields nothing and is kept whole, and a buffer plus chunk with exactly one
  occurrence yields exactly one record, the text before the delimiter, in that same step;
  the text behind the delimiter is the new buffer (empty when the chunk ends on the
  delimiter).
\<close>

theorem feed_zero_or_one_delimiter:
  assumes "split_str \<noteq> []"
  shows "(occurrences split_str (stream_cache self @ chunk) = 0 \<longrightarrow>
            feed split_str self chunk
              = (Inr None, self\<lparr>stream_cache := stream_cache self @ chunk\<rparr>))
       \<and> (occurrences split_str (stream_cache self @ chunk) = 1 \<longrightarrow>
            (\<exists>r t. stream_cache self @ chunk = r @ split_str @ t
                 \<and> feed split_str self chunk = (Inr (Some [r]), self\<lparr>stream_cache := t\<rparr>)))"
proof (intro conjI impI)
  let ?buf = "stream_cache self @ chunk"
  assume "occurrences split_str ?buf = 0"
  then have "length (split_scan split_str ?buf) < 2" by (simp add: length_split_scan)
  then show "feed split_str self chunk = (Inr None, self\<lparr>stream_cache := ?buf\<rparr>)"
    by (rule feed_keeps [OF assms])
next
  let ?buf = "stream_cache self @ chunk"
  assume "occurrences split_str ?buf = 1"
  then have len: "length (split_scan split_str ?buf) = 2" by (simp add: length_split_scan)
  then obtain r t where rt: "split_scan split_str ?buf = [r, t]"
    by (cases "split_scan split_str ?buf") (auto simp: length_Suc_conv)
  from split_scan_join [OF assms, of ?buf] rt have "?buf = r @ split_str @ t"
    by (simp add: reinsert_def)
  moreover from feed_emits [OF assms, of self chunk] len rt
  have "feed split_str self chunk = (Inr (Some [r]), self\<lparr>stream_cache := t\<rparr>)" by simp
  ultimately show "\<exists>r t. ?buf = r @ split_str @ t
      \<and> feed split_str self chunk = (Inr (Some [r]), self\<lparr>stream_cache := t\<rparr>)"
    by blast
qed

theorem feed_zero_or_one_delimiter_witness:
  "default_split_str \<noteq> []
   \<and> occurrences default_split_str (stream_cache \<lparr>manager = example_client, stream_cache = ''x''\<rparr> @ ''y'') = 0
   \<and> feed default_split_str \<lparr>manager = example_client, stream_cache = ''x''\<rparr> ''y''
       = (Inr None, \<lparr>manager = example_client, stream_cache = ''xy''\<rparr>)
   \<and> occurrences default_split_str (stream_cache \<lparr>manager = example_client, stream_cache = ''x''\<rparr> @ ''a\<newline>'') = 1
   \<and> (\<exists>r t. ''xa\<newline>'' = r @ default_split_str @ t
         \<and> feed default_split_str \<lparr>manager = example_client, stream_cache = ''x''\<rparr> ''a\<newline>''
             = (Inr (Some [r]), \<lparr>manager = example_client, stream_cache = t\<rparr>))"
proof -
  have h: "default_split_str \<noteq> []" by (simp add: default_split_str_def)
  have z: "occurrences default_split_str
      (stream_cache \<lparr>manager = example_client, stream_cache = ''x''\<rparr> @ ''y'') = 0"
    by (simp add: default_split_str_def)
  have o: "occurrences default_split_str
      (stream_cache \<lparr>manager = example_client, stream_cache = ''x''\<rparr> @ ''a\<newline>'') = 1"
    by (simp add: default_split_str_def)
  from feed_zero_or_one_delimiter [OF h, of "\<lparr>manager = example_client, stream_cache = ''x''\<rparr>" "''y''"]
    feed_zero_or_one_delimiter [OF h, of "\<lparr>manager = example_client, stream_cache = ''x''\<rparr>" "''a\<newline>''"]
    h z o
  show ?thesis by simp
qed

text \<open>
  Claim C5 as stated fails: on a fresh object the chunk \<^verbatim>\<open>"a\n"\<close> holds the delimiter once,
  at its end, and the step yields the record \<^verbatim>\<open>"a"\<close> at once.
\<close>

theorem boundary_record_emitted_at_once:
  "occurrences default_split_str (stream_cache (Base_init example_client) @ ''a\<newline>'') = 1
   \<and> feed default_split_str (Base_init example_client) ''a\<newline>''
       = (Inr (Some [''a'']), Base_init example_client)"
  by (simp add: default_split_str_def Base_init_def feed_def str_split_def)

section \<open>The end of the stream, and the next run\<close>

text \<open>
  Claim C6, as the code has it.  When the chunk source is exhausted the \<^verbatim>\<open>for\<close> loop ends
  and the generator returns: the run yields nothing for what the buffer still holds, and the
  object is left as it is.  From a buffer that holds no delimiter (as every buffer does that
  the loop has left), the records of a run followed by the final buffer are the pieces of
  the split of all the text: the last piece, the incomplete tail, is not yielded by the run
  and is not discarded either, it stays in \<open>stream_cache\<close>.
\<close>

theorem end_of_stream_drops_tail:
  assumes "split_str \<noteq> []" and "\<not> sublist split_str (stream_cache self)"
  shows "fetech_from_stream self (Callable (\<lambda>n. [])) split_str chunk_size = (([], None), self)
    \<and> snd (fst (fetech_from_stream self (Callable f) split_str chunk_size)) = None
    \<and> concat (fst (fst (fetech_from_stream self (Callable f) split_str chunk_size)))
         @ [stream_cache (snd (fetech_from_stream self (Callable f) split_str chunk_size))]
        = split_scan split_str (stream_cache self @ concat (f chunk_size))"
proof -
  let ?run = "fetech_loop split_str self (f chunk_size)"
  from fetech_loop_split [OF assms, of "f chunk_size"]
  have e: "snd (fst ?run) = None"
    and s: "stream_cache (snd ?run) = last (split_scan split_str (stream_cache self @ concat (f chunk_size)))"
    and r: "concat (fst (fst ?run)) = butlast (split_scan split_str (stream_cache self @ concat (f chunk_size)))"
    by simp_all
  have "concat (fst (fst ?run)) @ [stream_cache (snd ?run)]
      = split_scan split_str (stream_cache self @ concat (f chunk_size))"
    by (simp add: r s split_scan_nonempty)
  with e show ?thesis by (simp add: fetech_from_stream_Callable)
qed

theorem end_of_stream_drops_tail_witness:
  "default_split_str \<noteq> []
   \<and> \<not> sublist default_split_str (stream_cache (Base_init example_client))
   \<and> fetech_from_stream (Base_init example_client) (Callable (\<lambda>n. [''a\<newline>b'']))
         default_split_str default_chunk_size
       = (([[''a'']], None), \<lparr>manager = example_client, stream_cache = ''b''\<rparr>)
   \<and> fetech_from_stream \<lparr>manager = example_client, stream_cache = ''b''\<rparr> (Callable (\<lambda>n. []))
         default_split_str default_chunk_size
       = (([], None), \<lparr>manager = example_client, stream_cache = ''b''\<rparr>)
   \<and> [''a''] @ [''b''] = split_scan default_split_str (stream_cache (Base_init example_client) @ concat [''a\<newline>b''])"
proof -
  have h: "default_split_str \<noteq> []" by (simp add: default_split_str_def)
  have c: "\<not> sublist default_split_str (stream_cache (Base_init example_client))"
    by (simp add: default_split_str_def Base_init_def)
  have c': "\<not> sublist default_split_str (stream_cache \<lparr>manager = example_client, stream_cache = ''b''\<rparr>)"
    by (simp add: default_split_str_def sublist_single)
  have run: "fetech_from_stream (Base_init example_client) (Callable (\<lambda>n. [''a\<newline>b'']))
         default_split_str default_chunk_size
       = (([[''a'']], None), \<lparr>manager = example_client, stream_cache = ''b''\<rparr>)"
    by (simp add: fetech_from_stream_def default_split_str_def feed_def str_split_def Base_init_def)
  from end_of_stream_drops_tail [OF h c, of default_chunk_size "\<lambda>n. [''a\<newline>b'']"]
    end_of_stream_drops_tail [OF h c', of default_chunk_size "\<lambda>n. []"] h c run
  show ?thesis by simp
qed

text \<open>
  Claim C6 as stated fails: after the run fed \<^verbatim>\<open>"a\nb"\<close> has ended, the tail \<^verbatim>\<open>"b"\<close> is
  still in \<open>stream_cache\<close>, and the next run on the object, fed a newline, yields it as a
  record.
\<close>

theorem tail_kept_after_end_of_stream:
  "fetech_from_stream (Base_init example_client) (Callable (\<lambda>n. [''a\<newline>b'']))
       default_split_str default_chunk_size
     = (([[''a'']], None), \<lparr>manager = example_client, stream_cache = ''b''\<rparr>)
   \<and> stream_cache \<lparr>manager = example_client, stream_cache = ''b''\<rparr> \<noteq> []
   \<and> fetech_from_stream \<lparr>manager = example_client, stream_cache = ''b''\<rparr>
       (Callable (\<lambda>n. [''\<newline>''])) default_split_str default_chunk_size
     = (([[''b'']], None), \<lparr>manager = example_client, stream_cache = ''''\<rparr>)"
  by (simp add: fetech_from_stream_def default_split_str_def feed_def str_split_def Base_init_def)

text \<open>
  The object after a run is the object after the feed steps of its chunks, one after the
  other; \<^verbatim>\<open>subscribe\<close> leaves the object as it finds it.
\<close>

lemma fetech_loop_foldl:
  assumes "sep \<noteq> []"
  shows "snd (fetech_loop sep self chunks) = foldl (\<lambda>s c. snd (feed sep s c)) self chunks"
proof (induction chunks arbitrary: self)
  case Nil
  show ?case by simp
next
  case (Cons chunk rest)
  show ?case
  proof (cases "2 \<le> length (split_scan sep (stream_cache self @ chunk))")
    case True
    from feed_emits [OF assms True] Cons show ?thesis
      by (simp add: split_beta)
  next
    case False
    then have "length (split_scan sep (stream_cache self @ chunk)) < 2" by simp
    from feed_keeps [OF assms this] Cons show ?thesis
      by simp
  qed
qed

lemma subscribe_loop_Data: "subscribe_loop self (Data v) = (([], Some TypeError), self)"
  by (simp add: subscribe_loop_def fetech_from_stream_def)

lemma subscribe_keeps_object: "fst (snd (subscribe self w types queue filters)) = self"
  by (simp add: subscribe_def Let_def subscribe_loop_Data split: prod.splits sum.splits)

text \<open>
  Claim C8, as the code has it.  \<open>stream_cache\<close> is empty when the object is constructed
  (\<^verbatim>\<open>Base.__init__\<close>) and is changed by the feed steps of \<^verbatim>\<open>fetech_from_stream\<close> only:
  a run over a chunk source leaves what the feed steps leave, a run on a stream that is not
  callable and a run of \<^verbatim>\<open>subscribe\<close> leave the object as it was.  Nothing resets the
  buffer when a run starts, so it is not exclusive to one run: the records of a second run
  on the same object are those of the split of the buffer the first run left followed by
  the chunks of the second, and two runs in a row, with the same non-empty delimiter, yield
  together what a single run over both chunk sequences yields and leave the same object.
\<close>

theorem stream_cache_carries_over:
  assumes "split_str \<noteq> []"
  shows "stream_cache (Base_init m :: 'c base) = []
    \<and> snd (fetech_from_stream self (Callable f) split_str n)
        = foldl (\<lambda>s c. snd (feed split_str s c)) (self :: 'c base) (f n)
    \<and> snd (fetech_from_stream self (Data v) split_str n) = self
    \<and> fst (snd (subscribe b w types queue filters)) = b
    \<and> concat (fst (fst (fetech_from_stream
             (snd (fetech_from_stream (Base_init m) (Callable f1) split_str n1))
             (Callable f2) split_str n2)))
       = butlast (split_scan split_str
           (stream_cache (snd (fetech_from_stream (Base_init m :: 'c base) (Callable f1) split_str n1))
              @ concat (f2 n2)))
    \<and> concat (fst (fst (fetech_from_stream (Base_init m) (Callable f1) split_str n1)))
        @ concat (fst (fst (fetech_from_stream
             (snd (fetech_from_stream (Base_init m) (Callable f1) split_str n1))
             (Callable f2) split_str n2)))
       = concat (fst (fst (fetech_from_stream (Base_init m :: 'c base)
             (Callable (\<lambda>n. f1 n1 @ f2 n2)) split_str n1)))
    \<and> snd (fetech_from_stream
             (snd (fetech_from_stream (Base_init m) (Callable f1) split_str n1))
             (Callable f2) split_str n2)
       = snd (fetech_from_stream (Base_init m :: 'c base)
             (Callable (\<lambda>n. f1 n1 @ f2 n2)) split_str n1)"
proof -
  let ?b = "Base_init m :: 'c base"
  let ?d1 = "concat (f1 n1)" and ?d2 = "concat (f2 n2)"
  let ?run1 = "fetech_loop split_str ?b (f1 n1)"
  let ?run2 = "fetech_loop split_str (snd ?run1) (f2 n2)"
  let ?both = "fetech_loop split_str ?b (f1 n1 @ f2 n2)"
  have cache: "stream_cache ?b = []" by (simp add: Base_init_def)
  have clean: "\<not> sublist split_str (stream_cache ?b)" by (rule Base_init_clean [OF assms])
  from fetech_loop_split [OF assms clean, of "f1 n1"] cache
  have s1: "snd ?run1 = ?b\<lparr>stream_cache := last (split_scan split_str ?d1)\<rparr>"
    and r1: "concat (fst (fst ?run1)) = butlast (split_scan split_str ?d1)"
    by simp_all
  have c1: "stream_cache (snd ?run1) = last (split_scan split_str ?d1)" by (simp add: s1)
  have clean1: "\<not> sublist split_str (stream_cache (snd ?run1))"
    by (simp add: c1 last_split_scan_clean [OF assms])
  from fetech_loop_split [OF assms clean1, of "f2 n2"]
  have s2: "snd ?run2 = (snd ?run1)\<lparr>stream_cache :=
        last (split_scan split_str (stream_cache (snd ?run1) @ ?d2))\<rparr>"
    and r2: "concat (fst (fst ?run2))
        = butlast (split_scan split_str (stream_cache (snd ?run1) @ ?d2))"
    by simp_all
  from fetech_loop_split [OF assms clean, of "f1 n1 @ f2 n2"] cache
  have sb: "snd ?both = ?b\<lparr>stream_cache := last (split_scan split_str (?d1 @ ?d2))\<rparr>"
    and rb: "concat (fst (fst ?both)) = butlast (split_scan split_str (?d1 @ ?d2))"
    by simp_all
  have app: "split_scan split_str (?d1 @ ?d2)
      = butlast (split_scan split_str ?d1) @ split_scan split_str (last (split_scan split_str ?d1) @ ?d2)"
    by (rule split_scan_append [OF assms])
  from r2 have r2': "concat (fst (fst ?run2))
        = butlast (split_scan split_str (last (split_scan split_str ?d1) @ ?d2))"
    by (simp only: c1)
  from s2 have s2': "snd ?run2
        = ?b\<lparr>stream_cache := last (split_scan split_str (last (split_scan split_str ?d1) @ ?d2))\<rparr>"
    by (simp add: s1)
  have both_recs: "concat (fst (fst ?run1)) @ concat (fst (fst ?run2)) = concat (fst (fst ?both))"
    unfolding r1 r2' rb app by (simp add: butlast_append split_scan_nonempty)
  have both_state: "snd ?run2 = snd ?both"
    unfolding s2' sb app by (simp add: split_scan_nonempty)
  have fold: "snd (fetech_loop split_str self (f n))
      = foldl (\<lambda>s c. snd (feed split_str s c)) self (f n)"
    by (rule fetech_loop_foldl [OF assms])
  have data: "snd (fetech_from_stream self (Data v) split_str n) = self"
    by (simp add: fetech_from_stream_def)
  from cache fold data subscribe_keeps_object [of b w types queue filters] r2 both_recs both_state
  show ?thesis by (simp add: fetech_from_stream_Callable)
qed

theorem stream_cache_carries_over_witness:
  "default_split_str \<noteq> []
   \<and> snd (fetech_from_stream (Base_init example_client)
         (Callable (\<lambda>n. [''a\<newline>b''])) default_split_str default_chunk_size)
       = \<lparr>manager = example_client, stream_cache = ''b''\<rparr>
   \<and> concat (fst (fst (fetech_from_stream \<lparr>manager = example_client, stream_cache = ''b''\<rparr>
         (Callable (\<lambda>n. [''c\<newline>''])) default_split_str default_chunk_size)))
       = [''bc'']
   \<and> butlast (split_scan default_split_str (''b'' @ concat [''c\<newline>''])) = [''bc'']
   \<and> concat (fst (fst (fetech_from_stream (Base_init example_client)
         (Callable (\<lambda>n. [''a\<newline>b''] @ [''c\<newline>''])) default_split_str default_chunk_size)))
       = [''a''] @ [''bc'']"
proof -
  have h: "default_split_str \<noteq> []" by (simp add: default_split_str_def)
  have run1: "fetech_from_stream (Base_init example_client) (Callable (\<lambda>n. [''a\<newline>b'']))
         default_split_str default_chunk_size
       = (([[''a'']], None), \<lparr>manager = example_client, stream_cache = ''b''\<rparr>)"
    by (simp add: fetech_from_stream_def default_split_str_def feed_def str_split_def Base_init_def)
  have sp: "butlast (split_scan default_split_str (''b'' @ concat [''c\<newline>''])) = [''bc'']"
    by (simp add: default_split_str_def)
  note inst = stream_cache_carries_over [OF h, where m = example_client
      and ?f1.0 = "\<lambda>n. [''a\<newline>b'']" and ?n1.0 = default_chunk_size
      and ?f2.0 = "\<lambda>n. [''c\<newline>'']" and ?n2.0 = default_chunk_size]
  from inst have run2: "concat (fst (fst (fetech_from_stream
         (snd (fetech_from_stream (Base_init example_client) (Callable (\<lambda>n. [''a\<newline>b'']))
            default_split_str default_chunk_size))
         (Callable (\<lambda>n. [''c\<newline>''])) default_split_str default_chunk_size)))
       = butlast (split_scan default_split_str
           (stream_cache (snd (fetech_from_stream (Base_init example_client)
              (Callable (\<lambda>n. [''a\<newline>b''])) default_split_str default_chunk_size))
            @ concat [''c\<newline>'']))"
    by blast
  from inst have both: "concat (fst (fst (fetech_from_stream (Base_init example_client)
         (Callable (\<lambda>n. [''a\<newline>b'']))  default_split_str default_chunk_size)))
       @ concat (fst (fst (fetech_from_stream
         (snd (fetech_from_stream (Base_init example_client) (Callable (\<lambda>n. [''a\<newline>b'']))
            default_split_str default_chunk_size))
         (Callable (\<lambda>n. [''c\<newline>''])) default_split_str default_chunk_size)))
       = concat (fst (fst (fetech_from_stream (Base_init example_client)
         (Callable (\<lambda>n. [''a\<newline>b''] @ [''c\<newline>''])) default_split_str default_chunk_size)))"
    by blast
  from run2 have run2': "concat (fst (fst (fetech_from_stream
         \<lparr>manager = example_client, stream_cache = ''b''\<rparr>
         (Callable (\<lambda>n. [''c\<newline>''])) default_split_str default_chunk_size))) = [''bc'']"
    unfolding run1 using sp by simp
  from both have both': "concat (fst (fst (fetech_from_stream (Base_init example_client)
         (Callable (\<lambda>n. [''a\<newline>b''] @ [''c\<newline>''])) default_split_str default_chunk_size)))
       = [''a''] @ [''bc'']"
    unfolding run1 using run2' by simp
  from h run1 run2' sp both' show ?thesis by simp
qed

text \<open>
  Claim C8 as stated fails: the first run is fed \<^verbatim>\<open>"a\nb"\<close> and leaves \<^verbatim>\<open>"b"\<close>; the second
  run on the same object, fed \<^verbatim>\<open>"c\n"\<close>, yields the record \<^verbatim>\<open>"bc"\<close>, where a fresh object
  yields \<^verbatim>\<open>"c"\<close>.  A run of \<^verbatim>\<open>subscribe\<close> on the object does not empty the buffer
  either: it begins and ends with \<^verbatim>\<open>"b"\<close> in it.
\<close>

theorem second_run_sees_leftover_bytes:
  "fetech_from_stream (Base_init example_client) (Callable (\<lambda>n. [''a\<newline>b'']))
       default_split_str default_chunk_size
     = (([[''a'']], None), \<lparr>manager = example_client, stream_cache = ''b''\<rparr>)
   \<and> fetech_from_stream \<lparr>manager = example_client, stream_cache = ''b''\<rparr>
       (Callable (\<lambda>n. [''c\<newline>''])) default_split_str default_chunk_size
     = (([[''bc'']], None), \<lparr>manager = example_client, stream_cache = []\<rparr>)
   \<and> fetech_from_stream (Base_init example_client)
       (Callable (\<lambda>n. [''c\<newline>''])) default_split_str default_chunk_size
     = (([[''c'']], None), \<lparr>manager = example_client, stream_cache = []\<rparr>)
   \<and> fst (snd (subscribe \<lparr>manager = example_client, stream_cache = ''b''\<rparr>
         (example_world 200) [''CheckResult''] ''q'' None))
     = \<lparr>manager = example_client, stream_cache = ''b''\<rparr>"
  by (simp add: fetech_from_stream_def default_split_str_def feed_def str_split_def Base_init_def
      subscribe_keeps_object)

section \<open>The buffer between feeds\<close>

text \<open>
  Claim C9, as the code has it.  After any run from a freshly constructed object, with any
  non-empty delimiter, the buffer holds no occurrence of the delimiter.  When the delimiter
  is a single character, as the default newline is, a chunk without the delimiter then
  yields no record and is appended to the buffer.  A longer delimiter can begin in the
  buffer and end in the chunk, so the second part needs the delimiter to be one character.
\<close>

theorem carry_over_holds_no_delimiter:
  assumes "split_str \<noteq> []"
  shows "\<not> sublist split_str
          (stream_cache (snd (fetech_from_stream (Base_init m) (Callable f) split_str n)))
    \<and> (length split_str = 1 \<and> occurrences split_str chunk = 0 \<longrightarrow>
         feed split_str (snd (fetech_from_stream (Base_init m) (Callable f) split_str n)) chunk
           = (Inr None,
              (snd (fetech_from_stream (Base_init m) (Callable f) split_str n))
                \<lparr>stream_cache :=
                   stream_cache (snd (fetech_from_stream (Base_init m) (Callable f) split_str n))
                     @ chunk\<rparr>))"
proof -
  let ?self = "snd (fetech_from_stream (Base_init m) (Callable f) split_str n)"
  from fetech_loop_split [OF assms Base_init_clean [OF assms], of m "f n"]
  have "stream_cache ?self
      = last (split_scan split_str (stream_cache (Base_init m) @ concat (f n)))"
    by (simp add: fetech_from_stream_Callable)
  then have clean: "\<not> sublist split_str (stream_cache ?self)"
    by (simp add: last_split_scan_clean [OF assms])
  have "feed split_str ?self chunk
      = (Inr None, ?self\<lparr>stream_cache := stream_cache ?self @ chunk\<rparr>)"
    if one: "length split_str = 1" and none: "occurrences split_str chunk = 0"
  proof -
    from one obtain d where d: "split_str = [d]"
      by (cases split_str) auto
    from none have "\<not> sublist split_str chunk"
      by (simp add: occurrences_zero_iff [OF assms])
    with clean d have "\<not> sublist split_str (stream_cache ?self @ chunk)"
      by (simp add: sublist_single)
    then have "occurrences split_str (stream_cache ?self @ chunk) = 0"
      by (simp add: occurrences_zero_iff [OF assms])
    then have "length (split_scan split_str (stream_cache ?self @ chunk)) < 2"
      by (simp add: length_split_scan)
    then show ?thesis by (rule feed_keeps [OF assms])
  qed
  with clean show ?thesis by blast
qed

theorem carry_over_holds_no_delimiter_witness:
  "default_split_str \<noteq> []
   \<and> length default_split_str = 1
   \<and> occurrences default_split_str ''c'' = 0
   \<and> snd (fetech_from_stream (Base_init example_client) (Callable (\<lambda>n. [''a\<newline>b'']))
         default_split_str default_chunk_size)
       = \<lparr>manager = example_client, stream_cache = ''b''\<rparr>
   \<and> \<not> sublist default_split_str ''b''
   \<and> feed default_split_str \<lparr>manager = example_client, stream_cache = ''b''\<rparr> ''c''
       = (Inr None, \<lparr>manager = example_client, stream_cache = ''bc''\<rparr>)"
proof -
  have h: "default_split_str \<noteq> []" by (simp add: default_split_str_def)
  have l: "length default_split_str = 1" by (simp add: default_split_str_def)
  have z: "occurrences default_split_str ''c'' = 0" by (simp add: default_split_str_def)
  have run: "fetech_from_stream (Base_init example_client) (Callable (\<lambda>n. [''a\<newline>b'']))
         default_split_str default_chunk_size
       = (([[''a'']], None), \<lparr>manager = example_client, stream_cache = ''b''\<rparr>)"
    by (simp add: fetech_from_stream_def default_split_str_def feed_def str_split_def Base_init_def)
  from carry_over_holds_no_delimiter [OF h, of example_client "\<lambda>n. [''a\<newline>b'']"
      default_chunk_size "''c''"] h l z run
  show ?thesis by simp
qed

text \<open>
  Claim C9 as stated fails for a delimiter of two characters: with \<^verbatim>\<open>split_str="ab"\<close> the
  chunk \<^verbatim>\<open>"a"\<close> is kept in the buffer, and the chunk \<^verbatim>\<open>"b"\<close>, which holds no occurrence of
  the delimiter, completes it and yields the empty record.
\<close>

theorem delimiter_free_chunk_completes_record:
  "occurrences ''ab'' ''b'' = 0
   \<and> fetech_from_stream (Base_init example_client) (Callable (\<lambda>n. [''a''])) ''ab'' default_chunk_size
       = (([], None), \<lparr>manager = example_client, stream_cache = ''a''\<rparr>)
   \<and> feed ''ab'' \<lparr>manager = example_client, stream_cache = ''a''\<rparr> ''b''
       = (Inr (Some ['''']), \<lparr>manager = example_client, stream_cache = ''''\<rparr>)"
  by (simp add: fetech_from_stream_def feed_def str_split_def Base_init_def)

section \<open>The call of \<^verbatim>\<open>_request\<close> in \<^verbatim>\<open>subscribe\<close>\<close>

text \<open>
  Three positional arguments fit the signature of \<^verbatim>\<open>_request\<close>; the keyword
  \<^verbatim>\<open>stream\<close> names none of its parameters.
\<close>

lemma binds_positional: "binds request_params request_required 3 []"
  by (simp add: binds_def request_params_def request_required_def)

lemma binds_stream: "\<not> binds request_params request_required 3 [''stream'']"
  by (simp add: binds_def request_params_def)

text \<open>
  Claim C1.  For all arguments, iterating \<^verbatim>\<open>Events.subscribe\<close> yields nothing and ends
  with \<open>TypeError\<close>: the call of \<^verbatim>\<open>_request\<close> with the keyword \<^verbatim>\<open>stream\<close> does not bind.
  The object is left as it was and no POST has been made.
\<close>

theorem subscribe_raises_TypeError:
  "subscribe self w types queue filters = (([], Some TypeError), self, w)"
  by (simp add: subscribe_def binds_stream)

section \<open>The arguments of \<^verbatim>\<open>subscribe\<close>\<close>




section \<open>The status check of \<^verbatim>\<open>_request\<close>\<close>







end
